theory Spec2Isabelle
  imports Complex_Main "HOL-Library.Word"
begin

unbundle bit_operations_syntax

section \<open>Field identification in the PM table: the two analysis scripts\<close>

text \<open>
  The development embeds \<^verbatim>\<open>scripts/analyze_pm_table.py\<close> and
  \<^verbatim>\<open>scripts/analyze_temps.py\<close>. A snapshot is a list of bytes, an offset is a
  natural number, as is a core count (the scripts take both as non-negative integers),
  and what a scan prints (or returns) is the list of its candidates, in printing order.
\<close>

subsection \<open>Bytes and Python floats\<close>

type_synonym byte = "8 word"
type_synonym bytes = "byte list"

text \<open>
  A Python float holding the result of \<^verbatim>\<open>struct.unpack('<f', ...)\<close>. Every binary32
  number is exactly a rational, so a finite non-zero value (and \<open>+0.0\<close>) is \<open>Num q\<close>;
  \<open>-0.0\<close>, the two infinities and NaN are separate values.
\<close>

datatype pyfloat = Num rat | NegZero | PInf | NInf | NaN

datatype py_error = ZeroDivisionError | TypeError

text \<open>The four bytes of a little-endian unsigned 32-bit number, lowest byte first.\<close>

definition le_u32 :: "bytes \<Rightarrow> 32 word" where
  "le_u32 bs = foldr (\<lambda>b w. ucast b OR push_bit 8 w) bs 0"

text \<open>
  The number an IEEE-754 binary32 bit pattern denotes: sign bit 31, biased exponent in
  bits 30..23, fraction in bits 22..0.
\<close>

definition f32_value :: "32 word \<Rightarrow> pyfloat" where
  "f32_value w =
     (let s = bit w 31;
          e = unat (drop_bit 23 w AND 0xFF);
          m = unat (w AND 0x7FFFFF)
      in if e = 255 then (if m = 0 then (if s then NInf else PInf) else NaN)
         else if e = 0 \<and> m = 0 then (if s then NegZero else Num 0)
         else let mag = (if e = 0 then of_nat m / 2 ^ 149
                         else if 150 \<le> e then of_nat (2 ^ 23 + m) * 2 ^ (e - 150)
                         else of_nat (2 ^ 23 + m) / 2 ^ (150 - e))
              in Num (if s then - mag else mag))"

text \<open>\<^verbatim>\<open>struct.unpack('<f', bs)[0]\<close> on a slice of four bytes.\<close>

definition unpack_f :: "bytes \<Rightarrow> pyfloat" where
  "unpack_f bs = f32_value (le_u32 bs)"

text \<open>
  \<^verbatim>\<open>struct.pack('<f', x)\<close> for the float whose binary32 pattern is \<open>w\<close>: the pattern's
  four bytes, lowest first. (The scripts only unpack; this is the encoder of the
  round trip.)
\<close>

definition pack_f :: "32 word \<Rightarrow> bytes" where
  "pack_f w = [ucast w, ucast (drop_bit 8 w), ucast (drop_bit 16 w), ucast (drop_bit 24 w)]"

definition is_finite32 :: "32 word \<Rightarrow> bool" where
  "is_finite32 w = (unat (drop_bit 23 w AND 0xFF) \<noteq> 255)"

text \<open>
  \<^verbatim>\<open>
  def read_f32(data, offset):
      if offset + 4 > len(data):
          return None
      return struct.unpack('<f', data[offset:offset+4])[0]
  \<close>
\<close>

definition read_f32 :: "bytes \<Rightarrow> nat \<Rightarrow> pyfloat option" where
  "read_f32 data offset =
     (if offset + 4 > length data then None
      else Some (unpack_f (take 4 (drop offset data))))"

subsection \<open>Truthiness and comparisons\<close>

text \<open>
  \<^verbatim>\<open>if v\<close> on a float: both zeros are false, everything else (NaN too) is true.
\<close>

fun truthy :: "pyfloat \<Rightarrow> bool" where
  "truthy (Num q) = (q \<noteq> 0)"
| "truthy NegZero = False"
| "truthy PInf = True"
| "truthy NInf = True"
| "truthy NaN = True"

text \<open>\<^verbatim>\<open>c < v\<close> and \<^verbatim>\<open>v < c\<close> for a finite constant \<open>c\<close>; any comparison with NaN is false.\<close>

fun num_lt :: "rat \<Rightarrow> pyfloat \<Rightarrow> bool" where
  "num_lt c (Num q) = (c < q)"
| "num_lt c NegZero = (c < 0)"
| "num_lt c PInf = True"
| "num_lt c NInf = False"
| "num_lt c NaN = False"

fun lt_num :: "pyfloat \<Rightarrow> rat \<Rightarrow> bool" where
  "lt_num (Num q) c = (q < c)"
| "lt_num NegZero c = (0 < c)"
| "lt_num PInf c = False"
| "lt_num NInf c = True"
| "lt_num NaN c = False"

text \<open>\<^verbatim>\<open>v is not None and lo < v < hi\<close>\<close>

definition in_open :: "rat \<Rightarrow> rat \<Rightarrow> pyfloat option \<Rightarrow> bool" where
  "in_open lo hi ov = (case ov of None \<Rightarrow> False | Some v \<Rightarrow> num_lt lo v \<and> lt_num v hi)"

text \<open>\<^verbatim>\<open>v and lo < v < hi\<close>\<close>

definition hit :: "rat \<Rightarrow> rat \<Rightarrow> pyfloat option \<Rightarrow> bool" where
  "hit lo hi ov = (case ov of None \<Rightarrow> False | Some v \<Rightarrow> truthy v \<and> num_lt lo v \<and> lt_num v hi)"

text \<open>
  The number behind a float that has passed a range test (such a float is finite);
  used where the scripts add, compare and sort accepted values.
\<close>

fun num :: "pyfloat option \<Rightarrow> rat" where
  "num (Some (Num q)) = q"
| "num (Some NegZero) = 0"
| "num (Some PInf) = 0"
| "num (Some NInf) = 0"
| "num (Some NaN) = 0"
| "num None = 0"

subsection \<open>Ranges, sorting, loops\<close>

text \<open>\<^verbatim>\<open>range(0, stop, 4)\<close>; empty when \<open>stop \<le> 0\<close>.\<close>

definition py_range4 :: "int \<Rightarrow> nat list" where
  "py_range4 stop = map (\<lambda>k. 4 * k) [0..<nat ((stop + 3) div 4)]"

text \<open>
  \<^verbatim>\<open>xs.sort(key=f, reverse=True)\<close>: descending by key, and stable (elements with
  equal keys keep their order), which Python obtains by reversing around a stable
  ascending sort.
\<close>

definition sort_desc :: "('a \<Rightarrow> rat) \<Rightarrow> 'a list \<Rightarrow> 'a list" where
  "sort_desc f xs = rev (sort_key f (rev xs))"

text \<open>
  A \<^verbatim>\<open>for\<close> loop whose body either raises, skips, or emits one candidate; the first
  raise ends the loop.
\<close>

fun collect :: "('b \<Rightarrow> py_error + 'a option) \<Rightarrow> 'b list \<Rightarrow> py_error + 'a list" where
  "collect f [] = Inr []"
| "collect f (b # bs) =
     (case f b of
        Inl e \<Rightarrow> Inl e
      | Inr r \<Rightarrow>
          (case collect f bs of
             Inl e \<Rightarrow> Inl e
           | Inr rs \<Rightarrow> Inr (case r of None \<Rightarrow> rs | Some c \<Rightarrow> c # rs)))"

text \<open>
  Binary64 arithmetic (\<^verbatim>\<open>sum\<close>, \<^verbatim>\<open>/\<close>, \<^verbatim>\<open>-\<close> on Python floats) rounds, and how
  it rounds is not part of the scripts: the array scans take it as a parameter.
  \<open>exact_ops\<close> is the arithmetic without rounding, which agrees with binary64
  wherever every intermediate result is representable.
\<close>

record float_ops =
  fl_sum :: "rat list \<Rightarrow> rat"
  fl_div :: "rat \<Rightarrow> rat \<Rightarrow> rat"
  fl_sub :: "rat \<Rightarrow> rat \<Rightarrow> rat"

definition exact_ops :: float_ops where
  "exact_ops = \<lparr>fl_sum = sum_list, fl_div = (\<lambda>a b. a / b), fl_sub = (\<lambda>a b. a - b)\<rparr>"

text \<open>\<^verbatim>\<open>max(values)\<close> and \<^verbatim>\<open>min(values)\<close> of a non-empty list.\<close>

definition py_max :: "rat list \<Rightarrow> rat" where
  "py_max qs = fold max (tl qs) (hd qs)"

definition py_min :: "rat list \<Rightarrow> rat" where
  "py_min qs = fold min (tl qs) (hd qs)"

subsection \<open>Single-offset scans\<close>

text \<open>
  The loop shared by \<^verbatim>\<open>search_temps\<close>, \<^verbatim>\<open>search_power\<close>, \<^verbatim>\<open>search_freq\<close>,
  \<^verbatim>\<open>search_voltage\<close>, \<^verbatim>\<open>search_tctl\<close> and \<^verbatim>\<open>search_soc_temp\<close>, which differ in
  the two constants only:
  \<^verbatim>\<open>
  for i in range(0, len(data) - 4, 4):
      value = read_f32(data, i)
      if value and lo < value < hi:
          ...  (i, value)
  \<close>
\<close>

definition scan_offsets :: "bytes \<Rightarrow> nat list" where
  "scan_offsets data = py_range4 (int (length data) - 4)"

definition scan_range :: "rat \<Rightarrow> rat \<Rightarrow> bytes \<Rightarrow> (nat \<times> pyfloat) list" where
  "scan_range lo hi data =
     List.map_filter
       (\<lambda>i. case read_f32 data i of
               None \<Rightarrow> None
             | Some v \<Rightarrow> if hit lo hi (Some v) then Some (i, v) else None)
       (scan_offsets data)"

definition search_temps :: "bytes \<Rightarrow> (nat \<times> pyfloat) list" where
  "search_temps data = scan_range 30 95 data"

definition search_power :: "bytes \<Rightarrow> (nat \<times> pyfloat) list" where
  "search_power data = scan_range 5 200 data"

definition search_freq :: "bytes \<Rightarrow> (nat \<times> pyfloat) list" where
  "search_freq data = scan_range 1000 7000 data"

definition search_voltage :: "bytes \<Rightarrow> (nat \<times> pyfloat) list" where
  "search_voltage data = scan_range (1 / 2) 2 data"

definition search_soc_temp :: "bytes \<Rightarrow> (nat \<times> pyfloat) list" where
  "search_soc_temp data = scan_range 30 70 data"

text \<open>
  \<^verbatim>\<open>search_tctl\<close> collects the candidates in (40, 95) and then runs
  \<^verbatim>\<open>candidates.sort(key=lambda x: x[1], reverse=True)\<close>.
\<close>

definition search_tctl :: "bytes \<Rightarrow> (nat \<times> pyfloat) list" where
  "search_tctl data = sort_desc (\<lambda>x. num (Some (snd x))) (scan_range 40 95 data)"

subsection \<open>Array scans\<close>

text \<open>\<^verbatim>\<open>[read_f32(data, base + i * 4) for i in range(n)]\<close>\<close>

definition window :: "bytes \<Rightarrow> nat \<Rightarrow> nat \<Rightarrow> pyfloat option list" where
  "window data n base = map (\<lambda>i. read_f32 data (base + i * 4)) [0..<n]"

text \<open>\<^verbatim>\<open>range(0, len(data) - n * 4, 4)\<close>\<close>

definition array_bases :: "bytes \<Rightarrow> nat \<Rightarrow> nat list" where
  "array_bases data n = py_range4 (int (length data) - int n * 4)"

text \<open>
  The body of the loop of \<^verbatim>\<open>search_core_temps\<close> (analyze_temps.py):
  \<^verbatim>\<open>
  values = [read_f32(data, base + i * 4) for i in range(num_cores)]
  if all(v is not None and 25 < v < 100 for v in values):
      avg = sum(values) / len(values)
      spread = max(values) - min(values)
      if 35 < avg < 85 and spread < 30:
          candidates.append((base, values, avg, spread))
  \<close>
  With no values, \<^verbatim>\<open>all\<close> is true and the division raises.
\<close>

type_synonym temp_candidate = "nat \<times> pyfloat option list \<times> rat \<times> rat"

definition core_temps_at ::
  "float_ops \<Rightarrow> bytes \<Rightarrow> nat \<Rightarrow> nat \<Rightarrow> py_error + temp_candidate option" where
  "core_temps_at ops data num_cores base =
     (let vs = window data num_cores base in
      if list_all (in_open 25 100) vs then
        if length vs = 0 then Inl ZeroDivisionError
        else
          let avg = fl_div ops (fl_sum ops (map num vs)) (of_nat (length vs));
              spread = fl_sub ops (py_max (map num vs)) (py_min (map num vs))
          in if 35 < avg \<and> avg < 85 \<and> spread < 30
             then Inr (Some (base, vs, avg, spread)) else Inr None
      else Inr None)"

text \<open>
  \<^verbatim>\<open>search_core_temps\<close>: the loop, then
  \<^verbatim>\<open>candidates.sort(key=lambda x: x[2], reverse=True)\<close>.
\<close>

definition search_core_temps ::
  "float_ops \<Rightarrow> bytes \<Rightarrow> nat \<Rightarrow> py_error + temp_candidate list" where
  "search_core_temps ops data num_cores =
     (case collect (core_temps_at ops data num_cores) (array_bases data num_cores) of
        Inl e \<Rightarrow> Inl e
      | Inr candidates \<Rightarrow> Inr (sort_desc (\<lambda>x. fst (snd (snd x))) candidates))"

text \<open>
  The loops of \<^verbatim>\<open>search_core_arrays\<close> (analyze_pm_table.py). Temperature and power:
  \<^verbatim>\<open>
  values = [read_f32(data, base + i * 4) for i in range(core_count)]
  if all(v and lo < v < hi for v in values):
      avg = sum(values) / len(values)
      if mlo < avg < mhi:
          print(base, avg, values)
  \<close>
  with (lo, hi, mlo, mhi) = (25, 95, 30, 70) for temperature and (0.5, 20, 2, 15)
  for power. A printed candidate is (base, values, avg).
\<close>

type_synonym avg_candidate = "nat \<times> pyfloat option list \<times> rat"

definition strict_at ::
  "rat \<Rightarrow> rat \<Rightarrow> rat \<Rightarrow> rat \<Rightarrow> float_ops \<Rightarrow> bytes \<Rightarrow> nat \<Rightarrow> nat \<Rightarrow> py_error + avg_candidate option" where
  "strict_at lo hi mlo mhi ops data core_count base =
     (let vs = window data core_count base in
      if list_all (hit lo hi) vs then
        if length vs = 0 then Inl ZeroDivisionError
        else
          let avg = fl_div ops (fl_sum ops (map num vs)) (of_nat (length vs))
          in if mlo < avg \<and> avg < mhi then Inr (Some (base, vs, avg)) else Inr None
      else Inr None)"

definition core_temp_arrays :: "float_ops \<Rightarrow> bytes \<Rightarrow> nat \<Rightarrow> py_error + avg_candidate list" where
  "core_temp_arrays ops data core_count =
     collect (strict_at 25 95 30 70 ops data core_count) (array_bases data core_count)"

definition core_power_arrays :: "float_ops \<Rightarrow> bytes \<Rightarrow> nat \<Rightarrow> py_error + avg_candidate list" where
  "core_power_arrays ops data core_count =
     collect (strict_at (1 / 2) 20 2 15 ops data core_count) (array_bases data core_count)"

text \<open>
  Frequency:
  \<^verbatim>\<open>
  values = [read_f32(data, base + i * 4) for i in range(core_count)]
  valid = sum(1 for v in values if v and 400 < v < 6000)
  if valid >= core_count - 2:  # Allow 2 cores to be idle/different
      print(base); for v in values: print(f"{v:.0f}")
  \<close>
  Formatting \<^verbatim>\<open>None\<close> with \<^verbatim>\<open>.0f\<close> raises a TypeError.
\<close>

definition valid_count :: "pyfloat option list \<Rightarrow> nat" where
  "valid_count vs = length (filter (hit 400 6000) vs)"

definition freq_at :: "bytes \<Rightarrow> nat \<Rightarrow> nat \<Rightarrow> py_error + (nat \<times> pyfloat option list) option" where
  "freq_at data core_count base =
     (let vs = window data core_count base in
      if int (valid_count vs) \<ge> int core_count - 2 then
        if list_ex (\<lambda>v. v = None) vs then Inl TypeError else Inr (Some (base, vs))
      else Inr None)"

definition core_freq_arrays :: "bytes \<Rightarrow> nat \<Rightarrow> py_error + (nat \<times> pyfloat option list) list" where
  "core_freq_arrays data core_count =
     collect (freq_at data core_count) (array_bases data core_count)"

text \<open>\<^verbatim>\<open>search_core_arrays\<close> runs the three loops in this order.\<close>

definition search_core_arrays ::
  "float_ops \<Rightarrow> bytes \<Rightarrow> nat \<Rightarrow>
     py_error + (avg_candidate list \<times> avg_candidate list \<times> (nat \<times> pyfloat option list) list)" where
  "search_core_arrays ops data core_count =
     (case core_temp_arrays ops data core_count of
        Inl e \<Rightarrow> Inl e
      | Inr ts \<Rightarrow>
          (case core_power_arrays ops data core_count of
             Inl e \<Rightarrow> Inl e
           | Inr ps \<Rightarrow>
               (case core_freq_arrays data core_count of
                  Inl e \<Rightarrow> Inl e
                | Inr fs \<Rightarrow> Inr (ts, ps, fs))))"

subsection \<open>The monitor\<close>

text \<open>
  One pass of the loop of \<^verbatim>\<open>watch_temps\<close> on the snapshot it has just read:
  \<^verbatim>\<open>
  values = [read_f32(data, o) for o in offsets]
  temp_str = " | ".join(f"0x{o:04X}:{v:5.1f}" for o, v in zip(offsets, values) if v)
  \<close>
  The line is the list of its offset:value pairs. \<open>watch_temps\<close> is the lines printed
  for the snapshots read before the interrupt.
\<close>

definition tick_line :: "bytes \<Rightarrow> nat list \<Rightarrow> (nat \<times> pyfloat) list" where
  "tick_line data offsets =
     List.map_filter
       (\<lambda>(off, ov). case ov of
                      None \<Rightarrow> None
                    | Some v \<Rightarrow> if truthy v then Some (off, v) else None)
       (zip offsets (map (read_f32 data) offsets))"

definition watch_temps :: "bytes list \<Rightarrow> nat list \<Rightarrow> (nat \<times> pyfloat) list list" where
  "watch_temps snapshots offsets = map (\<lambda>data. tick_line data offsets) snapshots"

subsection \<open>Example snapshots\<close>

text \<open>The floats 50.0, 96.0, 10.0, 45.0 (16 bytes).\<close>

definition buf_spec :: bytes where
  "buf_spec = [0, 0, 0x48, 0x42,  0, 0, 0xC0, 0x42,  0, 0, 0x20, 0x41,  0, 0, 0x34, 0x42]"

text \<open>The floats 45.0, 50.0, 45.0, 50.0, 0.0: two pairs of equal values.\<close>

definition buf_ties :: bytes where
  "buf_ties = [0, 0, 0x34, 0x42,  0, 0, 0x48, 0x42,  0, 0, 0x34, 0x42,  0, 0, 0x48, 0x42,  0, 0, 0, 0]"

text \<open>The floats 95.0, 50.0, 0.0.\<close>

definition buf_95 :: bytes where
  "buf_95 = [0, 0, 0xBE, 0x42,  0, 0, 0x48, 0x42,  0, 0, 0, 0]"

text \<open>The floats 26.0, 94.0, 0.0.\<close>

definition buf_wide :: bytes where
  "buf_wide = [0, 0, 0xD0, 0x41,  0, 0, 0xBC, 0x42,  0, 0, 0, 0]"

text \<open>The floats 40.0, 50.0, 60.0, 0.0.\<close>

definition buf_rise :: bytes where
  "buf_rise = [0, 0, 0x20, 0x42,  0, 0, 0x48, 0x42,  0, 0, 0x70, 0x42,  0, 0, 0, 0]"

text \<open>The floats 5.0, 7.0, 0.0.\<close>

definition buf_power :: bytes where
  "buf_power = [0, 0, 0xA0, 0x40,  0, 0, 0xE0, 0x40,  0, 0, 0, 0]"

text \<open>
  Eight cores and one more field: six times 4000.0 then three times 0.0, and the same
  with only five times 4000.0.
\<close>

definition buf_idle2 :: bytes where
  "buf_idle2 = concat (replicate 6 [0, 0, 0x7A, 0x45]) @ concat (replicate 3 [0, 0, 0, 0])"

definition buf_idle3 :: bytes where
  "buf_idle3 = concat (replicate 5 [0, 0, 0x7A, 0x45]) @ concat (replicate 4 [0, 0, 0, 0])"

text \<open>The floats 0.0, 50.0 (8 bytes).\<close>

definition buf_zero_first :: bytes where
  "buf_zero_first = [0, 0, 0, 0,  0, 0, 0x48, 0x42]"

section \<open>The field decoder\<close>

lemma le_u32_pack: "le_u32 (pack_f w) = w"
  unfolding le_u32_def pack_f_def
  apply (rule bit_word_eqI)
  apply (auto simp: bit_simps)
  apply (case_tac "n < 24")
   apply simp_all
  done

lemma length_pack_f: "length (pack_f w) = 4"
  by (simp add: pack_f_def)

lemma take4_drop:
  assumes "off + 4 \<le> length data"
  shows "take 4 (drop off data) = [data ! off, data ! (off + 1), data ! (off + 2), data ! (off + 3)]"
proof -
  have len: "length (take 4 (drop off data)) = 4" using assms by simp
  show ?thesis
    by (rule nth_equalityI) (use assms in \<open>auto simp: less_Suc_eq_0_disj numeral_eq_Suc add.commute\<close>)
qed

lemma read_f32_None_iff: "(read_f32 data off = None) = (off + 4 > length data)"
  by (simp add: read_f32_def)

lemma read_f32_packed: "read_f32 (pre @ pack_f w @ post) (length pre) = Some (f32_value w)"
proof -
  have "take 4 (pack_f w @ post) = pack_f w" by (simp add: length_pack_f)
  then show ?thesis
    by (simp add: read_f32_def unpack_f_def le_u32_pack length_pack_f)
qed

lemma f32_value_45: "f32_value 0x42340000 = Num 45"
  by (simp add: f32_value_def)

lemma finite_45: "is_finite32 0x42340000"
  by code_simp

lemmas decode_defs = read_f32_def unpack_f_def le_u32_def f32_value_def

lemma read_buf_spec_12: "read_f32 buf_spec 12 = Some (Num 45)"
  by (simp add: decode_defs buf_spec_def)

lemma read_buf_spec_13: "read_f32 buf_spec 13 = None"
  by (simp add: read_f32_def buf_spec_def)

text \<open>
  C5. \<open>read_f32\<close> returns \<open>None\<close> exactly when \<open>offset + 4 > len(data)\<close>. Otherwise
  its result is the binary32 value of the little-endian word made of the four bytes at
  \<open>offset\<close>, \<open>offset + 1\<close>, \<open>offset + 2\<close>, \<open>offset + 3\<close> and of nothing else. Writing the
  four bytes of any binary32 pattern \<open>w\<close> (finite ones included) at an offset and reading
  that offset back gives the same 32 bits, hence the float \<open>w\<close> denotes.
\<close>

theorem read_f32_decode:
  "(read_f32 data off = None) = (off + 4 > length data)
   \<and> read_f32 data off =
       (if off + 4 > length data then None
        else Some (f32_value (le_u32 [data ! off, data ! (off + 1), data ! (off + 2), data ! (off + 3)])))
   \<and> read_f32 (pre @ pack_f w @ post) (length pre) = Some (f32_value w)
   \<and> le_u32 (take 4 (drop (length pre) (pre @ pack_f w @ post))) = w"
proof -
  have "take 4 (pack_f w @ post) = pack_f w" by (simp add: length_pack_f)
  then have a: "le_u32 (take 4 (drop (length pre) (pre @ pack_f w @ post))) = w"
    by (simp add: le_u32_pack)
  have b: "read_f32 data off =
       (if off + 4 > length data then None
        else Some (f32_value (le_u32 [data ! off, data ! (off + 1), data ! (off + 2), data ! (off + 3)])))"
    by (simp add: read_f32_def unpack_f_def take4_drop)
  show ?thesis
    by (intro conjI) (rule read_f32_None_iff, rule b, rule read_f32_packed, rule a)
qed

theorem read_f32_decode_witness:
  "read_f32 buf_spec 12 = Some (Num 45) \<and> read_f32 buf_spec 13 = None
   \<and> is_finite32 0x42340000
   \<and> read_f32 (pack_f 0x42340000 @ [5]) 0 = Some (Num 45)"
proof -
  have "read_f32 ([] @ pack_f 0x42340000 @ [5]) (length ([] :: bytes)) = Some (f32_value 0x42340000)"
    using read_f32_decode [of buf_spec 12 "[]" "0x42340000" "[5]"] by (elim conjE)
  then have c4: "read_f32 (pack_f 0x42340000 @ [5]) 0 = Some (Num 45)"
    by (simp only: list.size f32_value_45 append_Nil)
  show ?thesis
    by (intro conjI) (rule read_buf_spec_12, rule read_buf_spec_13, rule finite_45, rule c4)
qed

section \<open>Ranges and the single-offset scans\<close>

lemma set_py_range4: "set (py_range4 stop) = {i. i mod 4 = 0 \<and> int i < stop}"
proof -
  have "i \<in> set (py_range4 stop) \<longleftrightarrow> i mod 4 = 0 \<and> int i < stop" for i
  proof
    assume "i \<in> set (py_range4 stop)"
    then obtain k where k: "i = 4 * k" "k < nat ((stop + 3) div 4)"
      by (auto simp: py_range4_def)
    then show "i mod 4 = 0 \<and> int i < stop" by auto
  next
    assume a: "i mod 4 = 0 \<and> int i < stop"
    then obtain k where k: "i = 4 * k" by (auto simp: mod_eq_0_iff_dvd elim: dvdE)
    with a have "k < nat ((stop + 3) div 4)" by auto
    with k show "i \<in> set (py_range4 stop)" by (auto simp: py_range4_def)
  qed
  then show ?thesis by (intro set_eqI) simp
qed

lemma sorted_py_range4: "sorted_wrt (<) (py_range4 stop)"
  by (simp add: py_range4_def sorted_wrt_map del: upt.simps)

lemma scan_offsets_iff: "i \<in> set (scan_offsets data) \<longleftrightarrow> i mod 4 = 0 \<and> i + 4 < length data"
  by (auto simp: scan_offsets_def set_py_range4)

lemma hit_None [simp]: "hit lo hi None = False"
  by (simp add: hit_def)

lemma hit_Some_Num: "hit lo hi (Some v) \<Longrightarrow> \<exists>q. v = Num q \<and> lo < q \<and> q < hi"
  by (cases v) (auto simp: hit_def)

lemma hit_nonneg: "0 \<le> lo \<Longrightarrow> hit lo hi (Some v) = (num_lt lo v \<and> lt_num v hi)"
  by (cases v) (auto simp: hit_def)

lemma hit_SomeD: "hit lo hi ov \<Longrightarrow> \<exists>v. ov = Some v"
  by (cases ov) simp_all

lemma map_filter_if:
  "(\<And>x. f x = (if P x then Some (g x) else None)) \<Longrightarrow> List.map_filter f xs = map g (filter P xs)"
  by (induction xs) (simp_all add: List.map_filter_simps)

lemma scan_range_conv:
  "scan_range lo hi data =
     map (\<lambda>i. (i, the (read_f32 data i)))
       (filter (\<lambda>i. hit lo hi (read_f32 data i)) (scan_offsets data))"
  unfolding scan_range_def
  by (rule map_filter_if) (simp split: option.split)

lemma scan_range_mem:
  "((i, v) \<in> set (scan_range lo hi data)) =
     (i \<in> set (scan_offsets data) \<and> read_f32 data i = Some v \<and> hit lo hi (Some v))"
proof -
  have "hit lo hi ov \<Longrightarrow> ov = Some (the ov) \<and> hit lo hi (Some (the ov))" for ov
    by (cases ov) simp_all
  from this [of "read_f32 data i"] show ?thesis
    by (auto simp: scan_range_conv)
qed

lemma scan_range_fst:
  "map fst (scan_range lo hi data) = filter (\<lambda>i. hit lo hi (read_f32 data i)) (scan_offsets data)"
  by (simp add: scan_range_conv comp_def)

lemma scan_range_ascending: "sorted_wrt (<) (map fst (scan_range lo hi data))"
  unfolding scan_range_fst scan_offsets_def
  by (rule sorted_wrt_filter) (rule sorted_py_range4)

subsection \<open>Sorting\<close>

lemma sort_desc_sorted: "sorted_wrt (\<lambda>a b. f b \<le> f a) (sort_desc f xs)"
proof -
  have "sorted (map f (sort_key f (rev xs)))" by simp
  then have "sorted_wrt (\<lambda>a b. f a \<le> f b) (sort_key f (rev xs))"
    by (simp only: sorted_map)
  then show ?thesis
    by (simp only: sort_desc_def sorted_wrt_rev)
qed

lemma sort_desc_stable: "filter (\<lambda>x. f x = k) (sort_desc f xs) = filter (\<lambda>x. f x = k) xs"
proof -
  have "filter (\<lambda>x. f x = k) (sort_desc f xs) = rev (filter (\<lambda>x. f x = k) (sort_key f (rev xs)))"
    by (simp only: sort_desc_def rev_filter)
  also have "\<dots> = rev (filter (\<lambda>x. f x = k) (rev xs))"
    by (simp only: sort_key_stable)
  also have "\<dots> = filter (\<lambda>x. f x = k) xs"
    by (simp only: rev_filter [symmetric] rev_rev_ident)
  finally show ?thesis .
qed

lemma set_sort_desc: "set (sort_desc f xs) = set xs"
  by (simp add: sort_desc_def)

lemma length_sort_desc: "length (sort_desc f xs) = length xs"
  by (simp add: sort_desc_def)

subsection \<open>The example snapshots, decoded\<close>

lemma len_buf_spec: "length buf_spec = 16"
  by (simp add: buf_spec_def)
lemma offs_buf_spec: "scan_offsets buf_spec = [0, 4, 8]"
  by (simp add: scan_offsets_def py_range4_def len_buf_spec upt_conv_Cons)
lemma read_buf_spec_0: "read_f32 buf_spec 0 = Some (Num 50)"
  by (simp add: decode_defs buf_spec_def)
lemma read_buf_spec_4: "read_f32 buf_spec 4 = Some (Num 96)"
  by (simp add: decode_defs buf_spec_def)
lemma read_buf_spec_8: "read_f32 buf_spec 8 = Some (Num 10)"
  by (simp add: decode_defs buf_spec_def)

lemma len_buf_ties: "length buf_ties = 20"
  by (simp add: buf_ties_def)
lemma offs_buf_ties: "scan_offsets buf_ties = [0, 4, 8, 12]"
  by (simp add: scan_offsets_def py_range4_def len_buf_ties upt_conv_Cons)
lemma read_buf_ties_0: "read_f32 buf_ties 0 = Some (Num 45)"
  by (simp add: decode_defs buf_ties_def)
lemma read_buf_ties_4: "read_f32 buf_ties 4 = Some (Num 50)"
  by (simp add: decode_defs buf_ties_def)
lemma read_buf_ties_8: "read_f32 buf_ties 8 = Some (Num 45)"
  by (simp add: decode_defs buf_ties_def)
lemma read_buf_ties_12: "read_f32 buf_ties 12 = Some (Num 50)"
  by (simp add: decode_defs buf_ties_def)

lemma len_buf_95: "length buf_95 = 12"
  by (simp add: buf_95_def)
lemma offs_buf_95: "scan_offsets buf_95 = [0, 4]"
  by (simp add: scan_offsets_def py_range4_def len_buf_95 upt_conv_Cons)
lemma read_buf_95_0: "read_f32 buf_95 0 = Some (Num 95)"
  by (simp add: decode_defs buf_95_def)
lemma read_buf_95_4: "read_f32 buf_95 4 = Some (Num 50)"
  by (simp add: decode_defs buf_95_def)

lemma scan_buf_ties: "scan_range 40 95 buf_ties = [(0, Num 45), (4, Num 50), (8, Num 45), (12, Num 50)]"
  by (simp add: scan_range_def offs_buf_ties List.map_filter_def hit_def
      read_buf_ties_0 read_buf_ties_4 read_buf_ties_8 read_buf_ties_12)

lemma tctl_buf_ties: "search_tctl buf_ties = [(4, Num 50), (12, Num 50), (0, Num 45), (8, Num 45)]"
  by (simp add: search_tctl_def scan_buf_ties sort_desc_def sort_key_def)

lemma temps_buf_95: "search_temps buf_95 = [(4, Num 50)]"
  by (simp add: search_temps_def scan_range_def offs_buf_95 List.map_filter_def hit_def
      read_buf_95_0 read_buf_95_4)

subsection \<open>Claims on the single-offset scans\<close>

text \<open>
  C1. The claim: the scan visits every aligned offset from 0 to \<open>len - 4\<close> inclusive,
  so that the 16-byte snapshot holding 50.0, 96.0, 10.0, 45.0 scanned with (30, 95)
  gives offsets 0 and 12. The loop is \<^verbatim>\<open>range(0, len(data) - 4, 4)\<close>, whose bound is
  exclusive: on this snapshot it visits 0, 4 and 8 only, and \<^verbatim>\<open>search_temps\<close> prints
  offset 0 alone, although offset 12 decodes to 45.0.
\<close>

theorem search_temps_skips_last_field:
  "search_temps buf_spec = [(0, Num 50)]
   \<and> scan_offsets buf_spec = [0, 4, 8]
   \<and> read_f32 buf_spec 12 = Some (Num 45)
   \<and> hit 30 95 (Some (Num 45))"
proof -
  have "search_temps buf_spec = [(0, Num 50)]"
    by (simp add: search_temps_def scan_range_def offs_buf_spec List.map_filter_def hit_def
        read_buf_spec_0 read_buf_spec_4 read_buf_spec_8)
  moreover have "hit 30 95 (Some (Num 45))" by (simp add: hit_def)
  ultimately show ?thesis
    by (simp only: offs_buf_spec read_buf_spec_12 simp_thms)
qed

lemma scan_range_iff:
  assumes "0 \<le> lo" and "i \<in> set (scan_offsets data)"
  shows "((i, v) \<in> set (scan_range lo hi data)) =
           (read_f32 data i = Some v \<and> num_lt lo v \<and> lt_num v hi)"
proof -
  have "hit lo hi (Some v) = (num_lt lo v \<and> lt_num v hi)"
    using assms(1) by (rule hit_nonneg)
  then show ?thesis
    using assms(2) by (simp add: scan_range_mem)
qed

lemma set_search_tctl: "set (search_tctl data) = set (scan_range 40 95 data)"
  by (simp add: search_tctl_def set_sort_desc)

text \<open>
  C4. In every single-offset scan, a scanned offset is returned exactly when its
  decoded value \<open>v\<close> lies strictly inside the scan's range, \<open>lower < v < upper\<close> with both
  ends excluded. The ranges are those of the six scans: \<^verbatim>\<open>search_temps\<close> (30, 95),
  \<^verbatim>\<open>search_power\<close> (5, 200), \<^verbatim>\<open>search_freq\<close> (1000, 7000), \<^verbatim>\<open>search_voltage\<close> (0.5, 2),
  \<^verbatim>\<open>search_tctl\<close> (40, 95) and \<^verbatim>\<open>search_soc_temp\<close> (30, 70). In particular an offset
  holding exactly 95.0, or exactly 30.0, is never returned by the scan with range
  (30, 95).
\<close>

theorem scans_strict_iff:
  assumes "i \<in> set (scan_offsets data)"
  shows "((i, v) \<in> set (search_temps data))
           = (read_f32 data i = Some v \<and> num_lt 30 v \<and> lt_num v 95)
       \<and> ((i, v) \<in> set (search_power data))
           = (read_f32 data i = Some v \<and> num_lt 5 v \<and> lt_num v 200)
       \<and> ((i, v) \<in> set (search_freq data))
           = (read_f32 data i = Some v \<and> num_lt 1000 v \<and> lt_num v 7000)
       \<and> ((i, v) \<in> set (search_voltage data))
           = (read_f32 data i = Some v \<and> num_lt (1 / 2) v \<and> lt_num v 2)
       \<and> ((i, v) \<in> set (search_tctl data))
           = (read_f32 data i = Some v \<and> num_lt 40 v \<and> lt_num v 95)
       \<and> ((i, v) \<in> set (search_soc_temp data))
           = (read_f32 data i = Some v \<and> num_lt 30 v \<and> lt_num v 70)
       \<and> (i, Num 95) \<notin> set (search_temps data)
       \<and> (i, Num 30) \<notin> set (search_temps data)
       \<and> (i, Num 95) \<notin> set (search_tctl data)"
proof -
  have 1: "((i, v) \<in> set (search_temps data))
           = (read_f32 data i = Some v \<and> num_lt 30 v \<and> lt_num v 95)" for v
    unfolding search_temps_def using assms by (intro scan_range_iff) simp_all
  have 2: "((i, v) \<in> set (search_power data))
           = (read_f32 data i = Some v \<and> num_lt 5 v \<and> lt_num v 200)"
    unfolding search_power_def using assms by (intro scan_range_iff) simp_all
  have 3: "((i, v) \<in> set (search_freq data))
           = (read_f32 data i = Some v \<and> num_lt 1000 v \<and> lt_num v 7000)"
    unfolding search_freq_def using assms by (intro scan_range_iff) simp_all
  have 4: "((i, v) \<in> set (search_voltage data))
           = (read_f32 data i = Some v \<and> num_lt (1 / 2) v \<and> lt_num v 2)"
    unfolding search_voltage_def using assms by (intro scan_range_iff) simp_all
  have 5: "((i, v) \<in> set (search_tctl data))
           = (read_f32 data i = Some v \<and> num_lt 40 v \<and> lt_num v 95)" for v
    unfolding set_search_tctl using assms by (intro scan_range_iff) simp_all
  have 6: "((i, v) \<in> set (search_soc_temp data))
           = (read_f32 data i = Some v \<and> num_lt 30 v \<and> lt_num v 70)"
    unfolding search_soc_temp_def using assms by (intro scan_range_iff) simp_all
  have 7: "(i, Num 95) \<notin> set (search_temps data)"
    by (simp add: 1)
  have 8: "(i, Num 30) \<notin> set (search_temps data)"
    by (simp add: 1)
  have 9: "(i, Num 95) \<notin> set (search_tctl data)"
    by (simp add: 5)
  show ?thesis
    by (intro conjI) (rule 1, rule 2, rule 3, rule 4, rule 5, rule 6, rule 7, rule 8, rule 9)
qed

theorem scans_strict_iff_witness:
  "0 \<in> set (scan_offsets buf_95) \<and> 4 \<in> set (scan_offsets buf_95)
   \<and> read_f32 buf_95 0 = Some (Num 95) \<and> (0, Num 95) \<notin> set (search_temps buf_95)
   \<and> read_f32 buf_95 4 = Some (Num 50) \<and> (4, Num 50) \<in> set (search_temps buf_95)"
proof -
  have b: "0 \<in> set (scan_offsets buf_95)"
    by (simp add: offs_buf_95)
  have c: "4 \<in> set (scan_offsets buf_95)"
    by (simp add: offs_buf_95)
  have d: "(0, Num 95) \<notin> set (search_temps buf_95)"
    using scans_strict_iff [OF b, of "Num 95"] by (elim conjE)
  have "((4, Num 50) \<in> set (search_temps buf_95))
          = (read_f32 buf_95 4 = Some (Num 50) \<and> num_lt 30 (Num 50) \<and> lt_num (Num 50) 95)"
    using scans_strict_iff [OF c, of "Num 50"] by (elim conjE)
  then have e: "(4, Num 50) \<in> set (search_temps buf_95)"
    by (simp add: read_buf_95_4)
  from b c read_buf_95_0 d read_buf_95_4 e show ?thesis
    by blast
qed

text \<open>
  C6. The list \<^verbatim>\<open>search_tctl\<close> returns is in descending order of value; the candidates
  that hold one same value \<open>v\<close> come in the order the scan found them, which is ascending
  offset; the sort neither drops nor adds a candidate; and every value is a finite
  number inside (40, 95), so that the sort key is the value itself.
\<close>

theorem search_tctl_descending_stable:
  "sorted_wrt (\<lambda>a b. num (Some (snd b)) \<le> num (Some (snd a))) (search_tctl data)
   \<and> filter (\<lambda>x. snd x = v) (search_tctl data) = filter (\<lambda>x. snd x = v) (scan_range 40 95 data)
   \<and> sorted_wrt (<) (map fst (filter (\<lambda>x. snd x = v) (search_tctl data)))
   \<and> set (search_tctl data) = set (scan_range 40 95 data)
   \<and> length (search_tctl data) = length (scan_range 40 95 data)
   \<and> (\<forall>x \<in> set (search_tctl data). \<exists>q. snd x = Num q \<and> 40 < q \<and> q < 95)"
proof -
  let ?key = "\<lambda>x :: nat \<times> pyfloat. num (Some (snd x))"
  let ?scan = "scan_range 40 95 data"
  have el: "\<exists>q. snd x = Num q \<and> 40 < q \<and> q < 95" if "x \<in> set ?scan" for x
  proof -
    from that have "hit 40 95 (Some (snd x))"
      using scan_range_mem [of "fst x" "snd x" 40 95 data] by simp
    then show ?thesis by (rule hit_Some_Num)
  qed
  have keq: "(snd x = v) = (?key x = num (Some v))" if "x \<in> set ?scan" for x
  proof -
    from el [OF that] obtain q where q: "snd x = Num q" "40 < q" by blast
    then show ?thesis by (cases v) auto
  qed
  have 1: "sorted_wrt (\<lambda>a b. ?key b \<le> ?key a) (search_tctl data)"
    unfolding search_tctl_def by (rule sort_desc_sorted)
  have s: "set (search_tctl data) = set ?scan"
    by (simp add: search_tctl_def set_sort_desc)
  have "filter (\<lambda>x. snd x = v) (search_tctl data) = filter (\<lambda>x. ?key x = num (Some v)) (search_tctl data)"
    by (rule filter_cong) (simp_all add: s keq)
  also have "\<dots> = filter (\<lambda>x. ?key x = num (Some v)) ?scan"
    unfolding search_tctl_def by (rule sort_desc_stable)
  also have "\<dots> = filter (\<lambda>x. snd x = v) ?scan"
    by (rule filter_cong) (simp_all add: keq)
  finally have 2: "filter (\<lambda>x. snd x = v) (search_tctl data) = filter (\<lambda>x. snd x = v) ?scan" .
  have "sorted_wrt (\<lambda>a b. fst a < fst b) ?scan"
    using scan_range_ascending [of 40 95 data] by (simp only: sorted_wrt_map)
  then have "sorted_wrt (\<lambda>a b. fst a < fst b) (filter (\<lambda>x. snd x = v) ?scan)"
    by (rule sorted_wrt_filter)
  then have 3: "sorted_wrt (<) (map fst (filter (\<lambda>x. snd x = v) (search_tctl data)))"
    by (simp only: 2 sorted_wrt_map)
  have 4: "length (search_tctl data) = length ?scan"
    by (simp add: search_tctl_def length_sort_desc)
  have 5: "\<forall>x \<in> set (search_tctl data). \<exists>q. snd x = Num q \<and> 40 < q \<and> q < 95"
    using el by (simp add: s)
  show ?thesis
    by (intro conjI) (rule 1, rule 2, rule 3, rule s, rule 4, rule 5)
qed

theorem search_tctl_descending_stable_witness:
  "search_tctl buf_ties = [(4, Num 50), (12, Num 50), (0, Num 45), (8, Num 45)]
   \<and> (4, Num 50) \<in> set (search_tctl buf_ties)
   \<and> (\<exists>q. snd (4 :: nat, Num 50) = Num q \<and> 40 < q \<and> q < 95)
   \<and> filter (\<lambda>x. snd x = Num 50) (search_tctl buf_ties) = [(4, Num 50), (12, Num 50)]"
proof -
  have m: "(4, Num 50) \<in> set (search_tctl buf_ties)" by (simp add: tctl_buf_ties)
  have "\<forall>x \<in> set (search_tctl buf_ties). \<exists>q. snd x = Num q \<and> 40 < q \<and> q < 95"
    using search_tctl_descending_stable [of buf_ties "Num 50"] by (elim conjE)
  then have e: "\<exists>q. snd (4 :: nat, Num 50) = Num q \<and> 40 < q \<and> q < 95"
    using m by (rule bspec)
  have "filter (\<lambda>x. snd x = Num 50) (search_tctl buf_ties)
          = filter (\<lambda>x. snd x = Num 50) (scan_range 40 95 buf_ties)"
    using search_tctl_descending_stable [of buf_ties "Num 50"] by (elim conjE)
  then have f: "filter (\<lambda>x. snd x = Num 50) (search_tctl buf_ties) = [(4, Num 50), (12, Num 50)]"
    by (simp add: scan_buf_ties)
  show ?thesis
    by (intro conjI) (rule tctl_buf_ties, rule m, rule e, rule f)
qed

section \<open>The array scans\<close>

subsection \<open>Loops\<close>

lemma collect_conv:
  "(\<And>b. b \<in> set bs \<Longrightarrow> f b = Inr (g b)) \<Longrightarrow> collect f bs = Inr (List.map_filter g bs)"
  by (induction bs) (auto simp: List.map_filter_simps split: option.splits)

lemma collect_Inr_all: "collect f bs = Inr rs \<Longrightarrow> b \<in> set bs \<Longrightarrow> \<exists>r. f b = Inr r"
  by (induction bs arbitrary: rs) (auto split: sum.splits)

lemma collect_mem:
  "collect f bs = Inr rs \<Longrightarrow> (c \<in> set rs) = (\<exists>b \<in> set bs. f b = Inr (Some c))"
  by (induction bs arbitrary: rs) (auto split: sum.splits option.splits)

lemma collect_keys:
  "collect f bs = Inr rs \<Longrightarrow> (\<And>b c. f b = Inr (Some c) \<Longrightarrow> key c = b)
     \<Longrightarrow> map key rs = filter (\<lambda>b. \<exists>c. f b = Inr (Some c)) bs"
  by (induction bs arbitrary: rs) (auto split: sum.splits option.splits)

lemma collect_ascending:
  assumes "collect f bs = Inr rs" and "\<And>b c. f b = Inr (Some c) \<Longrightarrow> key c = b"
    and "sorted_wrt (<) bs"
  shows "sorted_wrt (<) (map key rs)"
proof -
  have "map key rs = filter (\<lambda>b. \<exists>c. f b = Inr (Some c)) bs"
    using assms(1) assms(2) by (rule collect_keys)
  moreover have "sorted_wrt (<) (filter (\<lambda>b. \<exists>c. f b = Inr (Some c)) bs)"
    using assms(3) by (rule sorted_wrt_filter)
  ultimately show ?thesis by simp
qed

subsection \<open>Windows\<close>

lemma length_window: "length (window data n b) = n"
  by (simp add: window_def)

lemma array_bases_iff:
  "b \<in> set (array_bases data n) \<longleftrightarrow> b mod 4 = 0 \<and> b + n * 4 < length data"
  by (auto simp: array_bases_def set_py_range4)

lemma sorted_array_bases: "sorted_wrt (<) (array_bases data n)"
  unfolding array_bases_def by (rule sorted_py_range4)

lemma window_no_None:
  assumes "b + n * 4 \<le> length data"
  shows "None \<notin> set (window data n b)"
proof
  assume "None \<in> set (window data n b)"
  then obtain i where i: "i < n" "read_f32 data (b + i * 4) = None"
    by (auto simp: window_def)
  from i(1) have "b + i * 4 + 4 \<le> b + n * 4" by simp
  with assms have "\<not> b + i * 4 + 4 > length data" by simp
  with i(2) show False by (simp add: read_f32_None_iff)
qed

lemma base_window_no_None: "b \<in> set (array_bases data n) \<Longrightarrow> None \<notin> set (window data n b)"
  by (rule window_no_None) (simp add: array_bases_iff)

subsection \<open>Loop bodies\<close>

lemma core_temps_at_Some:
  assumes "core_temps_at ops data n b = Inr (Some c)"
  shows "c = (b, window data n b,
              fl_div ops (fl_sum ops (map num (window data n b))) (of_nat (length (window data n b))),
              fl_sub ops (py_max (map num (window data n b))) (py_min (map num (window data n b))))
         \<and> list_all (in_open 25 100) (window data n b)
         \<and> 35 < fst (snd (snd c)) \<and> fst (snd (snd c)) < 85 \<and> snd (snd (snd c)) < 30"
  using assms by (auto simp: core_temps_at_def Let_def split: if_splits)

lemma core_temps_at_total: "0 < n \<Longrightarrow> \<exists>r. core_temps_at ops data n b = Inr r"
  by (simp add: core_temps_at_def Let_def length_window)

lemma strict_at_Some:
  assumes "strict_at lo hi mlo mhi ops data n b = Inr (Some c)"
  shows "c = (b, window data n b,
              fl_div ops (fl_sum ops (map num (window data n b))) (of_nat (length (window data n b))))
         \<and> list_all (hit lo hi) (window data n b)
         \<and> mlo < snd (snd c) \<and> snd (snd c) < mhi"
  using assms by (auto simp: strict_at_def Let_def split: if_splits)

lemma strict_at_total: "0 < n \<Longrightarrow> \<exists>r. strict_at lo hi mlo mhi ops data n b = Inr r"
  by (simp add: strict_at_def Let_def length_window)

lemma freq_at_Some:
  "(freq_at data n b = Inr (Some c)) =
     (c = (b, window data n b) \<and> int n - 2 \<le> int (valid_count (window data n b))
      \<and> None \<notin> set (window data n b))"
  by (auto simp: freq_at_def Let_def list_ex_iff)

lemma freq_at_total:
  "None \<notin> set (window data n b) \<Longrightarrow>
     freq_at data n b =
       Inr (if int n - 2 \<le> int (valid_count (window data n b)) then Some (b, window data n b) else None)"
  by (auto simp: freq_at_def Let_def list_ex_iff)

lemma search_core_arrays_Inr:
  "(search_core_arrays ops data n = Inr (ts, ps, fs)) =
     (core_temp_arrays ops data n = Inr ts \<and> core_power_arrays ops data n = Inr ps
      \<and> core_freq_arrays data n = Inr fs)"
  by (auto simp: search_core_arrays_def split: sum.splits)

lemma search_core_temps_Inr:
  "search_core_temps ops data n = Inr cs \<Longrightarrow>
     \<exists>cs'. collect (core_temps_at ops data n) (array_bases data n) = Inr cs'
       \<and> cs = sort_desc (\<lambda>x. fst (snd (snd x))) cs'"
  by (auto simp: search_core_temps_def split: sum.splits)

lemma search_core_temps_cand:
  assumes "search_core_temps ops data n = Inr cs" and "c \<in> set cs"
  shows "\<exists>b \<in> set (array_bases data n). core_temps_at ops data n b = Inr (Some c)"
proof -
  from search_core_temps_Inr [OF assms(1)] obtain cs' where
    cs': "collect (core_temps_at ops data n) (array_bases data n) = Inr cs'"
      "cs = sort_desc (\<lambda>x. fst (snd (snd x))) cs'" by blast
  from assms(2) cs'(2) have "c \<in> set cs'" by (simp add: set_sort_desc)
  then show ?thesis by (simp only: collect_mem [OF cs'(1)])
qed

lemma core_freq_arrays_total:
  "core_freq_arrays data n =
     Inr (List.map_filter
            (\<lambda>b. if int n - 2 \<le> int (valid_count (window data n b))
                  then Some (b, window data n b) else None)
            (array_bases data n))"
  unfolding core_freq_arrays_def
  by (rule collect_conv) (simp add: freq_at_total base_window_no_None)

text \<open>
  With at least one core no array scan raises: each returns its list. (With no core,
  a non-empty snapshot makes the first strict window raise ZeroDivisionError.)
\<close>

lemma search_core_temps_total:
  assumes "0 < n"
  shows "\<exists>cs. search_core_temps ops data n = Inr cs"
proof -
  have "core_temps_at ops data n b
          = Inr (case core_temps_at ops data n b of Inr r \<Rightarrow> r | Inl e \<Rightarrow> None)" for b
    using core_temps_at_total [OF assms, of ops data b] by auto
  then have "\<exists>rs. collect (core_temps_at ops data n) (array_bases data n) = Inr rs"
    using collect_conv [of "array_bases data n" "core_temps_at ops data n"
        "\<lambda>b. case core_temps_at ops data n b of Inr r \<Rightarrow> r | Inl e \<Rightarrow> None"]
    by blast
  then show ?thesis
    by (auto simp: search_core_temps_def)
qed

lemma strict_arrays_total:
  assumes "0 < n"
  shows "\<exists>rs. collect (strict_at lo hi mlo mhi ops data n) (array_bases data n) = Inr rs"
proof -
  have "strict_at lo hi mlo mhi ops data n b
          = Inr (case strict_at lo hi mlo mhi ops data n b of Inr r \<Rightarrow> r | Inl e \<Rightarrow> None)" for b
    using strict_at_total [OF assms, of lo hi mlo mhi ops data b] by auto
  then show ?thesis
    using collect_conv [of "array_bases data n" "strict_at lo hi mlo mhi ops data n"
        "\<lambda>b. case strict_at lo hi mlo mhi ops data n b of Inr r \<Rightarrow> r | Inl e \<Rightarrow> None"]
    by blast
qed

subsection \<open>The example snapshots, scanned for arrays\<close>

lemma len_buf_wide: "length buf_wide = 12"
  by (simp add: buf_wide_def)
lemma bases_buf_wide: "array_bases buf_wide 2 = [0]"
  by (simp add: array_bases_def py_range4_def len_buf_wide upt_conv_Cons)
lemma read_buf_wide_0: "read_f32 buf_wide 0 = Some (Num 26)"
  by (simp add: decode_defs buf_wide_def)
lemma read_buf_wide_4: "read_f32 buf_wide 4 = Some (Num 94)"
  by (simp add: decode_defs buf_wide_def)
lemma window_buf_wide: "window buf_wide 2 0 = [Some (Num 26), Some (Num 94)]"
  by (simp add: window_def upt_conv_Cons read_buf_wide_0 read_buf_wide_4)

lemma len_buf_rise: "length buf_rise = 16"
  by (simp add: buf_rise_def)
lemma bases_buf_rise: "array_bases buf_rise 2 = [0, 4]"
  by (simp add: array_bases_def py_range4_def len_buf_rise upt_conv_Cons)
lemma read_buf_rise_0: "read_f32 buf_rise 0 = Some (Num 40)"
  by (simp add: decode_defs buf_rise_def)
lemma read_buf_rise_4: "read_f32 buf_rise 4 = Some (Num 50)"
  by (simp add: decode_defs buf_rise_def)
lemma read_buf_rise_8: "read_f32 buf_rise 8 = Some (Num 60)"
  by (simp add: decode_defs buf_rise_def)
lemma window_buf_rise_0: "window buf_rise 2 0 = [Some (Num 40), Some (Num 50)]"
  by (simp add: window_def upt_conv_Cons read_buf_rise_0 read_buf_rise_4)
lemma window_buf_rise_4: "window buf_rise 2 4 = [Some (Num 50), Some (Num 60)]"
  by (simp add: window_def upt_conv_Cons read_buf_rise_4 read_buf_rise_8)

lemma buf_idle2_bytes:
  "buf_idle2 = [0, 0, 0x7A, 0x45,  0, 0, 0x7A, 0x45,  0, 0, 0x7A, 0x45,  0, 0, 0x7A, 0x45,
                0, 0, 0x7A, 0x45,  0, 0, 0x7A, 0x45,  0, 0, 0, 0,  0, 0, 0, 0,  0, 0, 0, 0]"
  by (simp add: buf_idle2_def numeral_eq_Suc)
lemma buf_idle3_bytes:
  "buf_idle3 = [0, 0, 0x7A, 0x45,  0, 0, 0x7A, 0x45,  0, 0, 0x7A, 0x45,  0, 0, 0x7A, 0x45,
                0, 0, 0x7A, 0x45,  0, 0, 0, 0,  0, 0, 0, 0,  0, 0, 0, 0,  0, 0, 0, 0]"
  by (simp add: buf_idle3_def numeral_eq_Suc)
lemma len_buf_idle2: "length buf_idle2 = 36"
  by (simp add: buf_idle2_bytes)
lemma len_buf_idle3: "length buf_idle3 = 36"
  by (simp add: buf_idle3_bytes)
lemma bases_buf_idle2: "array_bases buf_idle2 8 = [0]"
  by (simp add: array_bases_def py_range4_def len_buf_idle2 upt_conv_Cons)
lemma bases_buf_idle3: "array_bases buf_idle3 8 = [0]"
  by (simp add: array_bases_def py_range4_def len_buf_idle3 upt_conv_Cons)

lemma window_buf_idle2:
  "window buf_idle2 8 0 =
     [Some (Num 4000), Some (Num 4000), Some (Num 4000), Some (Num 4000),
      Some (Num 4000), Some (Num 4000), Some (Num 0), Some (Num 0)]"
  by (simp add: window_def upt_conv_Cons decode_defs buf_idle2_bytes)

lemma window_buf_idle3:
  "window buf_idle3 8 0 =
     [Some (Num 4000), Some (Num 4000), Some (Num 4000), Some (Num 4000),
      Some (Num 4000), Some (Num 0), Some (Num 0), Some (Num 0)]"
  by (simp add: window_def upt_conv_Cons decode_defs buf_idle3_bytes)

lemmas scan_defs = search_core_arrays_def core_temp_arrays_def core_power_arrays_def
  core_freq_arrays_def search_core_temps_def strict_at_def core_temps_at_def freq_at_def
  Let_def hit_def in_open_def valid_count_def exact_ops_def py_max_def py_min_def
  sort_desc_def sort_key_def

lemma arrays_buf_wide:
  "search_core_arrays exact_ops buf_wide 2 =
     Inr ([(0, [Some (Num 26), Some (Num 94)], 60)], [], [(0, [Some (Num 26), Some (Num 94)])])"
  by (simp add: scan_defs bases_buf_wide window_buf_wide)

lemma arrays_buf_rise:
  "search_core_arrays exact_ops buf_rise 2 =
     Inr ([(0, [Some (Num 40), Some (Num 50)], 45), (4, [Some (Num 50), Some (Num 60)], 55)], [],
          [(0, [Some (Num 40), Some (Num 50)]), (4, [Some (Num 50), Some (Num 60)])])"
  by (simp add: scan_defs bases_buf_rise window_buf_rise_0 window_buf_rise_4)

lemma temps_buf_rise:
  "search_core_temps exact_ops buf_rise 2 =
     Inr [(4, [Some (Num 50), Some (Num 60)], 55, 10), (0, [Some (Num 40), Some (Num 50)], 45, 10)]"
  by (simp add: scan_defs bases_buf_rise window_buf_rise_0 window_buf_rise_4)

lemma arrays_buf_idle2:
  "search_core_arrays exact_ops buf_idle2 8 = Inr ([], [], [(0, window buf_idle2 8 0)])"
  by (simp add: scan_defs bases_buf_idle2 window_buf_idle2)

lemma arrays_buf_idle3:
  "search_core_arrays exact_ops buf_idle3 8 = Inr ([], [], [])"
  by (simp add: scan_defs bases_buf_idle3 window_buf_idle3)

lemma valid_buf_idle2: "valid_count (window buf_idle2 8 0) = 6"
  by (simp add: window_buf_idle2 valid_count_def hit_def)

lemma valid_buf_idle3: "valid_count (window buf_idle3 8 0) = 5"
  by (simp add: window_buf_idle3 valid_count_def hit_def)

lemma len_buf_power: "length buf_power = 12"
  by (simp add: buf_power_def)
lemma bases_buf_power: "array_bases buf_power 2 = [0]"
  by (simp add: array_bases_def py_range4_def len_buf_power upt_conv_Cons)
lemma window_buf_power: "window buf_power 2 0 = [Some (Num 5), Some (Num 7)]"
  by (simp add: window_def upt_conv_Cons decode_defs buf_power_def)
lemma arrays_buf_power:
  "search_core_arrays exact_ops buf_power 2 =
     Inr ([], [(0, [Some (Num 5), Some (Num 7)], 6)], [(0, [Some (Num 5), Some (Num 7)])])"
  by (simp add: scan_defs bases_buf_power window_buf_power)

lemma len_buf_zero_first: "length buf_zero_first = 8"
  by (simp add: buf_zero_first_def)
lemma read_buf_zero_first_0: "read_f32 buf_zero_first 0 = Some (Num 0)"
  by (simp add: decode_defs buf_zero_first_def)
lemma read_buf_zero_first_4: "read_f32 buf_zero_first 4 = Some (Num 50)"
  by (simp add: decode_defs buf_zero_first_def)
lemma read_buf_zero_first_8: "read_f32 buf_zero_first 8 = None"
  by (simp add: read_f32_def len_buf_zero_first)
lemma tick_buf_zero_first: "tick_line buf_zero_first [0, 4, 8] = [(4, Num 50)]"
  by (simp add: tick_line_def List.map_filter_def
      read_buf_zero_first_0 read_buf_zero_first_4 read_buf_zero_first_8)

subsection \<open>Claims on the array scans\<close>

lemma core_temps_at_tuple:
  "core_temps_at ops data n b' = Inr (Some (b, vs, avg, spread)) \<Longrightarrow>
     vs = window data n b \<and> list_all (in_open 25 100) vs
     \<and> avg = fl_div ops (fl_sum ops (map num vs)) (of_nat (length vs)) \<and> 35 < avg \<and> avg < 85
     \<and> spread = fl_sub ops (py_max (map num vs)) (py_min (map num vs)) \<and> spread < 30"
  by (auto simp: core_temps_at_def Let_def split: if_splits)

lemma strict_at_tuple:
  "strict_at lo hi mlo mhi ops data n b' = Inr (Some (b, vs, avg)) \<Longrightarrow>
     vs = window data n b \<and> list_all (hit lo hi) vs
     \<and> avg = fl_div ops (fl_sum ops (map num vs)) (of_nat (length vs)) \<and> mlo < avg \<and> avg < mhi"
  by (auto simp: strict_at_def Let_def split: if_splits)

lemma temps_cand_tuple:
  assumes "search_core_temps ops data n = Inr cs" and "(b, vs, avg, spread) \<in> set cs"
  shows "vs = window data n b \<and> list_all (in_open 25 100) vs
     \<and> avg = fl_div ops (fl_sum ops (map num vs)) (of_nat (length vs)) \<and> 35 < avg \<and> avg < 85
     \<and> spread = fl_sub ops (py_max (map num vs)) (py_min (map num vs)) \<and> spread < 30"
proof -
  from search_core_temps_cand [OF assms] obtain b' where
    "core_temps_at ops data n b' = Inr (Some (b, vs, avg, spread))" by blast
  then show ?thesis by (rule core_temps_at_tuple)
qed

lemma strict_cand_tuple:
  assumes "collect (strict_at lo hi mlo mhi ops data n) (array_bases data n) = Inr rs"
    and "(b, vs, avg) \<in> set rs"
  shows "vs = window data n b \<and> list_all (hit lo hi) vs
     \<and> avg = fl_div ops (fl_sum ops (map num vs)) (of_nat (length vs)) \<and> mlo < avg \<and> avg < mhi"
proof -
  from assms(2) obtain b' where
    "strict_at lo hi mlo mhi ops data n b' = Inr (Some (b, vs, avg))"
    unfolding collect_mem [OF assms(1)] by blast
  then show ?thesis by (rule strict_at_tuple)
qed

lemma spread_wide:
  "fl_sub exact_ops (py_max (map num [Some (Num 26), Some (Num 94)]))
         (py_min (map num [Some (Num 26), Some (Num 94)])) = 68"
  by (simp add: exact_ops_def py_max_def py_min_def)

text \<open>
  C2, as claimed: no strict-mode window is returned whose spread reaches the spread
  bound. The temperature and power loops of \<^verbatim>\<open>search_core_arrays\<close> compute no spread at
  all: on the snapshot 26.0, 94.0, 0.0 with two cores the temperature loop prints the
  window at offset 0 (mean 60.0), whose spread is 68, above the bound 30 of
  \<^verbatim>\<open>search_core_temps\<close>.
\<close>

theorem core_arrays_spread_counterexample:
  "search_core_arrays exact_ops buf_wide 2 =
     Inr ([(0, [Some (Num 26), Some (Num 94)], 60)], [], [(0, [Some (Num 26), Some (Num 94)])])
   \<and> fl_sub exact_ops (py_max (map num [Some (Num 26), Some (Num 94)]))
         (py_min (map num [Some (Num 26), Some (Num 94)])) = 68
   \<and> \<not> (68 :: rat) < 30"
  by (intro conjI) (rule arrays_buf_wide, rule spread_wide, simp)

text \<open>
  C2, amended: a window returned by a strict-mode scan is the window at its base; all
  its values pass the scan's per-unit test; its mean, as the scan computed it, lies
  strictly inside the scan's mean range. This holds for \<^verbatim>\<open>search_core_temps\<close> (values in
  (25, 100), mean in (35, 85)) and for the temperature (values in (25, 95), mean in
  (30, 70)) and power (values in (0.5, 20), mean in (2, 15)) loops of
  \<^verbatim>\<open>search_core_arrays\<close>. In \<^verbatim>\<open>search_core_temps\<close>, moreover, the spread \<open>max - min\<close> is
  below 30; \<^verbatim>\<open>search_core_arrays\<close> has no spread bound.
\<close>

theorem strict_arrays_sound:
  "(search_core_temps ops data n = Inr cs \<and> (b, vs, avg, spread) \<in> set cs \<longrightarrow>
      vs = window data n b \<and> list_all (in_open 25 100) vs
      \<and> avg = fl_div ops (fl_sum ops (map num vs)) (of_nat (length vs)) \<and> 35 < avg \<and> avg < 85
      \<and> spread = fl_sub ops (py_max (map num vs)) (py_min (map num vs)) \<and> spread < 30)
   \<and> (search_core_arrays ops data n = Inr (ts, ps, fs) \<and> (b, vs, avg) \<in> set ts \<longrightarrow>
      vs = window data n b \<and> list_all (hit 25 95) vs
      \<and> avg = fl_div ops (fl_sum ops (map num vs)) (of_nat (length vs)) \<and> 30 < avg \<and> avg < 70)
   \<and> (search_core_arrays ops data n = Inr (ts, ps, fs) \<and> (b, vs, avg) \<in> set ps \<longrightarrow>
      vs = window data n b \<and> list_all (hit (1 / 2) 20) vs
      \<and> avg = fl_div ops (fl_sum ops (map num vs)) (of_nat (length vs)) \<and> 2 < avg \<and> avg < 15)"
proof -
  have 1: "search_core_temps ops data n = Inr cs \<and> (b, vs, avg, spread) \<in> set cs \<longrightarrow>
      vs = window data n b \<and> list_all (in_open 25 100) vs
      \<and> avg = fl_div ops (fl_sum ops (map num vs)) (of_nat (length vs)) \<and> 35 < avg \<and> avg < 85
      \<and> spread = fl_sub ops (py_max (map num vs)) (py_min (map num vs)) \<and> spread < 30"
    using temps_cand_tuple [of ops data n cs b vs avg spread] by blast
  have 2: "search_core_arrays ops data n = Inr (ts, ps, fs) \<and> (b, vs, avg) \<in> set ts \<longrightarrow>
      vs = window data n b \<and> list_all (hit 25 95) vs
      \<and> avg = fl_div ops (fl_sum ops (map num vs)) (of_nat (length vs)) \<and> 30 < avg \<and> avg < 70"
    using strict_cand_tuple [of 25 95 30 70 ops data n ts b vs avg]
    unfolding search_core_arrays_Inr core_temp_arrays_def by blast
  have 3: "search_core_arrays ops data n = Inr (ts, ps, fs) \<and> (b, vs, avg) \<in> set ps \<longrightarrow>
      vs = window data n b \<and> list_all (hit (1 / 2) 20) vs
      \<and> avg = fl_div ops (fl_sum ops (map num vs)) (of_nat (length vs)) \<and> 2 < avg \<and> avg < 15"
    using strict_cand_tuple [of "1 / 2" 20 2 15 ops data n ps b vs avg]
    unfolding search_core_arrays_Inr core_power_arrays_def by blast
  show ?thesis
    by (intro conjI) (rule 1, rule 2, rule 3)
qed

theorem strict_arrays_sound_witness:
  "search_core_temps exact_ops buf_rise 2 =
     Inr [(4, [Some (Num 50), Some (Num 60)], 55, 10), (0, [Some (Num 40), Some (Num 50)], 45, 10)]
   \<and> (list_all (in_open 25 100) [Some (Num 50), Some (Num 60)] \<and> (35 :: rat) < 55 \<and> (10 :: rat) < 30)
   \<and> search_core_arrays exact_ops buf_rise 2 =
     Inr ([(0, [Some (Num 40), Some (Num 50)], 45), (4, [Some (Num 50), Some (Num 60)], 55)], [],
          [(0, [Some (Num 40), Some (Num 50)]), (4, [Some (Num 50), Some (Num 60)])])
   \<and> (list_all (hit 25 95) [Some (Num 40), Some (Num 50)] \<and> (30 :: rat) < 45 \<and> (45 :: rat) < 70)
   \<and> search_core_arrays exact_ops buf_power 2 =
     Inr ([], [(0, [Some (Num 5), Some (Num 7)], 6)], [(0, [Some (Num 5), Some (Num 7)])])
   \<and> (list_all (hit (1 / 2) 20) [Some (Num 5), Some (Num 7)] \<and> (2 :: rat) < 6 \<and> (6 :: rat) < 15)"
proof -
  let ?cs = "[(4 :: nat, [Some (Num 50), Some (Num 60)], 55 :: rat, 10 :: rat),
              (0, [Some (Num 40), Some (Num 50)], 45, 10)]"
  let ?ts = "[(0 :: nat, [Some (Num 40), Some (Num 50)], 45 :: rat), (4, [Some (Num 50), Some (Num 60)], 55)]"
  let ?fs = "[(0 :: nat, [Some (Num 40), Some (Num 50)]), (4, [Some (Num 50), Some (Num 60)])]"
  let ?ps = "[(0 :: nat, [Some (Num 5), Some (Num 7)], 6 :: rat)]"
  let ?fp = "[(0 :: nat, [Some (Num 5), Some (Num 7)])]"
  have m1: "(4, [Some (Num 50), Some (Num 60)], 55, 10) \<in> set ?cs" by simp
  have m2: "(0, [Some (Num 40), Some (Num 50)], 45) \<in> set ?ts" by simp
  have m3: "(0, [Some (Num 5), Some (Num 7)], 6) \<in> set ?ps" by simp
  have a: "list_all (in_open 25 100) [Some (Num 50), Some (Num 60)] \<and> (35 :: rat) < 55 \<and> (10 :: rat) < 30"
    using strict_arrays_sound [of exact_ops buf_rise 2 ?cs 4 "[Some (Num 50), Some (Num 60)]" 55 10 ?ts "[]" ?fs]
      temps_buf_rise m1 by blast
  have b: "list_all (hit 25 95) [Some (Num 40), Some (Num 50)] \<and> (30 :: rat) < 45 \<and> (45 :: rat) < 70"
    using strict_arrays_sound [of exact_ops buf_rise 2 ?cs 0 "[Some (Num 40), Some (Num 50)]" 45 10 ?ts "[]" ?fs]
      arrays_buf_rise m2 by blast
  have c: "list_all (hit (1 / 2) 20) [Some (Num 5), Some (Num 7)] \<and> (2 :: rat) < 6 \<and> (6 :: rat) < 15"
    using strict_arrays_sound [of exact_ops buf_power 2 ?cs 0 "[Some (Num 5), Some (Num 7)]" 6 10 "[]" ?ps ?fp]
      arrays_buf_power m3 by blast
  from temps_buf_rise a arrays_buf_rise b arrays_buf_power c show ?thesis
    by blast
qed

lemma freq_cand_iff:
  assumes "core_freq_arrays data n = Inr fs"
  shows "(c \<in> set fs) =
     (fst c \<in> set (array_bases data n) \<and> snd c = window data n (fst c)
      \<and> int n - 2 \<le> int (valid_count (snd c)))"
proof -
  have "(c \<in> set fs) = (\<exists>b \<in> set (array_bases data n). freq_at data n b = Inr (Some c))"
    using assms unfolding core_freq_arrays_def by (rule collect_mem)
  also have "\<dots> = (\<exists>b \<in> set (array_bases data n).
      c = (b, window data n b) \<and> int n - 2 \<le> int (valid_count (window data n b)))"
    using base_window_no_None [of _ data n] by (simp add: freq_at_Some cong: bex_cong)
  also have "\<dots> = (fst c \<in> set (array_bases data n) \<and> snd c = window data n (fst c)
      \<and> int n - 2 \<le> int (valid_count (snd c)))"
    by (cases c) auto
  finally show ?thesis .
qed

lemma search_core_arrays_total:
  assumes "0 < n"
  shows "\<exists>ts ps fs. search_core_arrays ops data n = Inr (ts, ps, fs)"
proof -
  from strict_arrays_total [OF assms] obtain ts where
    "core_temp_arrays ops data n = Inr ts" unfolding core_temp_arrays_def by blast
  moreover from strict_arrays_total [OF assms] obtain ps where
    "core_power_arrays ops data n = Inr ps" unfolding core_power_arrays_def by blast
  moreover obtain fs where "core_freq_arrays data n = Inr fs"
    using core_freq_arrays_total by blast
  ultimately show ?thesis
    unfolding search_core_arrays_Inr by blast
qed

text \<open>
  C3. The frequency loop never raises; a scanned window (one at a base of
  \<^verbatim>\<open>range(0, len(data) - core_count * 4, 4)\<close>) is printed exactly when at least
  \<open>core_count - 2\<close> of its values pass \<^verbatim>\<open>v and 400 < v < 6000\<close>, whatever the other
  values are; nothing else is printed; and with at least one core this loop is reached,
  its list being the third component of what \<^verbatim>\<open>search_core_arrays\<close> prints.
\<close>

theorem tolerant_freq_iff:
  "(\<exists>fs. core_freq_arrays data n = Inr fs)
   \<and> (core_freq_arrays data n = Inr fs \<and> b \<in> set (array_bases data n) \<longrightarrow>
        ((b, window data n b) \<in> set fs) = (int n - 2 \<le> int (valid_count (window data n b))))
   \<and> (core_freq_arrays data n = Inr fs \<and> c \<in> set fs \<longrightarrow>
        fst c \<in> set (array_bases data n) \<and> snd c = window data n (fst c))
   \<and> (0 < n \<longrightarrow> (\<exists>ts ps fs'. search_core_arrays ops data n = Inr (ts, ps, fs')
                      \<and> core_freq_arrays data n = Inr fs'))"
proof -
  have 1: "\<exists>fs. core_freq_arrays data n = Inr fs"
    using core_freq_arrays_total by blast
  have 2: "core_freq_arrays data n = Inr fs \<and> b \<in> set (array_bases data n) \<longrightarrow>
        ((b, window data n b) \<in> set fs) = (int n - 2 \<le> int (valid_count (window data n b)))"
    using freq_cand_iff [of data n fs "(b, window data n b)"] by auto
  have 3: "core_freq_arrays data n = Inr fs \<and> c \<in> set fs \<longrightarrow>
        fst c \<in> set (array_bases data n) \<and> snd c = window data n (fst c)"
    using freq_cand_iff [of data n fs c] by blast
  have 4: "0 < n \<longrightarrow> (\<exists>ts ps fs'. search_core_arrays ops data n = Inr (ts, ps, fs')
                      \<and> core_freq_arrays data n = Inr fs')"
    using search_core_arrays_total [of n ops data] unfolding search_core_arrays_Inr by blast
  show ?thesis
    by (intro conjI) (rule 1, rule 2, rule 3, rule 4)
qed

lemma freq_buf_idle2: "core_freq_arrays buf_idle2 8 = Inr [(0, window buf_idle2 8 0)]"
  using arrays_buf_idle2 unfolding search_core_arrays_Inr by (elim conjE)

lemma freq_buf_idle3: "core_freq_arrays buf_idle3 8 = Inr []"
  using arrays_buf_idle3 unfolding search_core_arrays_Inr by (elim conjE)

theorem tolerant_freq_iff_witness:
  "0 \<in> set (array_bases buf_idle2 8) \<and> valid_count (window buf_idle2 8 0) = 6
   \<and> core_freq_arrays buf_idle2 8 = Inr [(0, window buf_idle2 8 0)]
   \<and> (0, window buf_idle2 8 0) \<in> set [(0 :: nat, window buf_idle2 8 0)]
   \<and> 0 \<in> set (array_bases buf_idle3 8) \<and> valid_count (window buf_idle3 8 0) = 5
   \<and> core_freq_arrays buf_idle3 8 = Inr []
   \<and> \<not> (int 8 - 2 \<le> int (valid_count (window buf_idle3 8 0)))
   \<and> (0 :: nat) < 8
   \<and> search_core_arrays exact_ops buf_idle2 8 = Inr ([], [], [(0, window buf_idle2 8 0)])"
proof -
  have b2: "0 \<in> set (array_bases buf_idle2 8)" by (simp add: bases_buf_idle2)
  have b3: "0 \<in> set (array_bases buf_idle3 8)" by (simp add: bases_buf_idle3)
  have "((0, window buf_idle2 8 0) \<in> set [(0 :: nat, window buf_idle2 8 0)])
          = (int 8 - 2 \<le> int (valid_count (window buf_idle2 8 0)))"
    using tolerant_freq_iff [of buf_idle2 8 "[(0, window buf_idle2 8 0)]" 0 "(0, window buf_idle2 8 0)" exact_ops]
      freq_buf_idle2 b2 by blast
  then have m2: "(0, window buf_idle2 8 0) \<in> set [(0 :: nat, window buf_idle2 8 0)]"
    by (simp add: valid_buf_idle2)
  have "((0, window buf_idle3 8 0) \<in> set ([] :: (nat \<times> pyfloat option list) list))
          = (int 8 - 2 \<le> int (valid_count (window buf_idle3 8 0)))"
    using tolerant_freq_iff [of buf_idle3 8 "[]" 0 "(0, window buf_idle3 8 0)" exact_ops]
      freq_buf_idle3 b3 by blast
  then have m3: "\<not> (int 8 - 2 \<le> int (valid_count (window buf_idle3 8 0)))"
    by simp
  have p: "(0 :: nat) < 8" by simp
  from b2 valid_buf_idle2 freq_buf_idle2 m2 b3 valid_buf_idle3 freq_buf_idle3 m3 p arrays_buf_idle2
  show ?thesis by blast
qed

lemma temps_cand_base:
  assumes "search_core_temps ops data n = Inr cs" and "(b, vs, avg, spread) \<in> set cs"
  shows "b \<in> set (array_bases data n)"
proof -
  from search_core_temps_cand [OF assms] obtain b' where
    b': "b' \<in> set (array_bases data n)"
      "core_temps_at ops data n b' = Inr (Some (b, vs, avg, spread))" by blast
  from core_temps_at_Some [OF b'(2)] have "b = b'" by simp
  with b'(1) show ?thesis by simp
qed

lemma strict_cand_base:
  assumes "collect (strict_at lo hi mlo mhi ops data n) (array_bases data n) = Inr rs"
    and "(b, vs, avg) \<in> set rs"
  shows "b \<in> set (array_bases data n)"
proof -
  from assms(2) obtain b' where
    b': "b' \<in> set (array_bases data n)"
      "strict_at lo hi mlo mhi ops data n b' = Inr (Some (b, vs, avg))"
    unfolding collect_mem [OF assms(1)] by blast
  from strict_at_Some [OF b'(2)] have "b = b'" by simp
  with b'(1) show ?thesis by simp
qed

lemma strict_ascending:
  assumes "collect (strict_at lo hi mlo mhi ops data n) (array_bases data n) = Inr rs"
  shows "sorted_wrt (<) (map fst rs)"
proof (rule collect_ascending [OF assms])
  fix b c assume "strict_at lo hi mlo mhi ops data n b = Inr (Some c)"
  from strict_at_Some [OF this] show "fst c = b" by simp
next
  show "sorted_wrt (<) (array_bases data n)" by (rule sorted_array_bases)
qed

text \<open>
  C7, as claimed: the strict-mode candidates for temperature and for power come sorted
  by mean, descending. \<^verbatim>\<open>search_core_arrays\<close> prints each candidate inside its loop and
  sorts nothing: on the snapshot 40.0, 50.0, 60.0, 0.0 with two cores its temperature
  candidates are the windows at 0 and 4, with means 45.0 then 55.0.
\<close>

theorem core_arrays_unsorted_counterexample:
  "search_core_arrays exact_ops buf_rise 2 =
     Inr ([(0, [Some (Num 40), Some (Num 50)], 45), (4, [Some (Num 50), Some (Num 60)], 55)], [],
          [(0, [Some (Num 40), Some (Num 50)]), (4, [Some (Num 50), Some (Num 60)])])
   \<and> \<not> sorted_wrt (\<lambda>a b. snd (snd b) \<le> snd (snd a))
         [(0 :: nat, [Some (Num 40), Some (Num 50)], 45 :: rat), (4, [Some (Num 50), Some (Num 60)], 55)]"
  by (intro conjI) (rule arrays_buf_rise, simp)

text \<open>
  C7, amended: the candidates \<^verbatim>\<open>search_core_temps\<close> returns are sorted by mean (the
  third component), descending; the temperature and power candidates of
  \<^verbatim>\<open>search_core_arrays\<close> come in scan order, that is by ascending base offset.
\<close>

theorem array_candidates_order:
  "(search_core_temps ops data n = Inr cs \<longrightarrow>
      sorted_wrt (\<lambda>a b. fst (snd (snd b)) \<le> fst (snd (snd a))) cs)
   \<and> (search_core_arrays ops data n = Inr (ts, ps, fs) \<longrightarrow>
      sorted_wrt (<) (map fst ts) \<and> sorted_wrt (<) (map fst ps))"
proof -
  have 1: "search_core_temps ops data n = Inr cs \<longrightarrow>
      sorted_wrt (\<lambda>a b. fst (snd (snd b)) \<le> fst (snd (snd a))) cs"
  proof
    assume "search_core_temps ops data n = Inr cs"
    from search_core_temps_Inr [OF this] obtain cs' where
      "cs = sort_desc (\<lambda>x. fst (snd (snd x))) cs'" by blast
    then show "sorted_wrt (\<lambda>a b. fst (snd (snd b)) \<le> fst (snd (snd a))) cs"
      by (simp only: sort_desc_sorted)
  qed
  have 2: "search_core_arrays ops data n = Inr (ts, ps, fs) \<longrightarrow>
      sorted_wrt (<) (map fst ts) \<and> sorted_wrt (<) (map fst ps)"
    unfolding search_core_arrays_Inr core_temp_arrays_def core_power_arrays_def
    using strict_ascending [of 25 95 30 70 ops data n ts]
      strict_ascending [of "1 / 2" 20 2 15 ops data n ps] by blast
  show ?thesis
    by (intro conjI) (rule 1, rule 2)
qed

theorem array_candidates_order_witness:
  "search_core_temps exact_ops buf_rise 2 =
     Inr [(4, [Some (Num 50), Some (Num 60)], 55, 10), (0, [Some (Num 40), Some (Num 50)], 45, 10)]
   \<and> sorted_wrt (\<lambda>a b. fst (snd (snd b)) \<le> fst (snd (snd a)))
        [(4 :: nat, [Some (Num 50), Some (Num 60)], 55 :: rat, 10 :: rat),
         (0, [Some (Num 40), Some (Num 50)], 45, 10)]
   \<and> search_core_arrays exact_ops buf_rise 2 =
     Inr ([(0, [Some (Num 40), Some (Num 50)], 45), (4, [Some (Num 50), Some (Num 60)], 55)], [],
          [(0, [Some (Num 40), Some (Num 50)]), (4, [Some (Num 50), Some (Num 60)])])
   \<and> sorted_wrt (<) (map fst
        [(0 :: nat, [Some (Num 40), Some (Num 50)], 45 :: rat), (4, [Some (Num 50), Some (Num 60)], 55)])"
proof -
  note t = array_candidates_order [of exact_ops buf_rise 2
      "[(4, [Some (Num 50), Some (Num 60)], 55, 10), (0, [Some (Num 40), Some (Num 50)], 45, 10)]"
      "[(0, [Some (Num 40), Some (Num 50)], 45), (4, [Some (Num 50), Some (Num 60)], 55)]"
      "[]" "[(0, [Some (Num 40), Some (Num 50)]), (4, [Some (Num 50), Some (Num 60)])]"]
  from t temps_buf_rise arrays_buf_rise show ?thesis by blast
qed

lemma zero_fails_freq: "\<not> hit 400 6000 (Some (Num 0))"
  by (simp add: hit_def)

text \<open>
  C8, as claimed: all values of every array candidate pass the per-unit test of its
  scan. The frequency loop prints a window as soon as all but two of its values pass:
  the eight-core window with six times 4000.0 and two times 0.0 is printed, and 0.0
  fails \<^verbatim>\<open>v and 400 < v < 6000\<close>.
\<close>

theorem tolerant_values_counterexample:
  "search_core_arrays exact_ops buf_idle2 8 = Inr ([], [], [(0, window buf_idle2 8 0)])
   \<and> window buf_idle2 8 0 =
     [Some (Num 4000), Some (Num 4000), Some (Num 4000), Some (Num 4000),
      Some (Num 4000), Some (Num 4000), Some (Num 0), Some (Num 0)]
   \<and> \<not> hit 400 6000 (Some (Num 0))"
  by (intro conjI) (rule arrays_buf_idle2, rule window_buf_idle2, rule zero_fails_freq)

text \<open>
  C8, amended: every array candidate, of any scan, holds exactly \<open>unitCount\<close> values,
  the window at its base. In the strict scans all of them pass the scan's per-unit
  test; in the frequency scan at least \<open>unitCount - 2\<close> of them do (the comment in the
  code: allow 2 cores to be idle or different).
\<close>

theorem array_candidate_values:
  "(search_core_temps ops data n = Inr cs \<and> (b, vs, avg, spread) \<in> set cs \<longrightarrow>
      length vs = n \<and> vs = window data n b \<and> list_all (in_open 25 100) vs)
   \<and> (search_core_arrays ops data n = Inr (ts, ps, fs) \<and> (b, vs, avg) \<in> set ts \<longrightarrow>
      length vs = n \<and> vs = window data n b \<and> list_all (hit 25 95) vs)
   \<and> (search_core_arrays ops data n = Inr (ts, ps, fs) \<and> (b, vs, avg) \<in> set ps \<longrightarrow>
      length vs = n \<and> vs = window data n b \<and> list_all (hit (1 / 2) 20) vs)
   \<and> (search_core_arrays ops data n = Inr (ts, ps, fs) \<and> (b, vs) \<in> set fs \<longrightarrow>
      length vs = n \<and> vs = window data n b
      \<and> int n - 2 \<le> int (length (filter (hit 400 6000) vs)))"
proof -
  have 1: "search_core_temps ops data n = Inr cs \<and> (b, vs, avg, spread) \<in> set cs \<longrightarrow>
      length vs = n \<and> vs = window data n b \<and> list_all (in_open 25 100) vs"
    using temps_cand_tuple [of ops data n cs b vs avg spread] length_window [of data n b] by auto
  have 2: "search_core_arrays ops data n = Inr (ts, ps, fs) \<and> (b, vs, avg) \<in> set ts \<longrightarrow>
      length vs = n \<and> vs = window data n b \<and> list_all (hit 25 95) vs"
    using strict_cand_tuple [of 25 95 30 70 ops data n ts b vs avg] length_window [of data n b]
    unfolding search_core_arrays_Inr core_temp_arrays_def by auto
  have 3: "search_core_arrays ops data n = Inr (ts, ps, fs) \<and> (b, vs, avg) \<in> set ps \<longrightarrow>
      length vs = n \<and> vs = window data n b \<and> list_all (hit (1 / 2) 20) vs"
    using strict_cand_tuple [of "1 / 2" 20 2 15 ops data n ps b vs avg] length_window [of data n b]
    unfolding search_core_arrays_Inr core_power_arrays_def by auto
  have 4: "search_core_arrays ops data n = Inr (ts, ps, fs) \<and> (b, vs) \<in> set fs \<longrightarrow>
      length vs = n \<and> vs = window data n b
      \<and> int n - 2 \<le> int (length (filter (hit 400 6000) vs))"
    using freq_cand_iff [of data n fs "(b, vs)"] length_window [of data n b]
    unfolding search_core_arrays_Inr valid_count_def by auto
  show ?thesis
    by (intro conjI) (rule 1, rule 2, rule 3, rule 4)
qed

theorem array_candidate_values_witness:
  "search_core_temps exact_ops buf_rise 2 =
     Inr [(4, [Some (Num 50), Some (Num 60)], 55, 10), (0, [Some (Num 40), Some (Num 50)], 45, 10)]
   \<and> (length [Some (Num 50), Some (Num 60)] = 2 \<and> list_all (in_open 25 100) [Some (Num 50), Some (Num 60)])
   \<and> search_core_arrays exact_ops buf_rise 2 =
     Inr ([(0, [Some (Num 40), Some (Num 50)], 45), (4, [Some (Num 50), Some (Num 60)], 55)], [],
          [(0, [Some (Num 40), Some (Num 50)]), (4, [Some (Num 50), Some (Num 60)])])
   \<and> (length [Some (Num 40), Some (Num 50)] = 2 \<and> list_all (hit 25 95) [Some (Num 40), Some (Num 50)])
   \<and> search_core_arrays exact_ops buf_power 2 =
     Inr ([], [(0, [Some (Num 5), Some (Num 7)], 6)], [(0, [Some (Num 5), Some (Num 7)])])
   \<and> (length [Some (Num 5), Some (Num 7)] = 2 \<and> list_all (hit (1 / 2) 20) [Some (Num 5), Some (Num 7)])
   \<and> search_core_arrays exact_ops buf_idle2 8 = Inr ([], [], [(0, window buf_idle2 8 0)])
   \<and> (length (window buf_idle2 8 0) = 8
        \<and> int 8 - 2 \<le> int (length (filter (hit 400 6000) (window buf_idle2 8 0))))"
proof -
  let ?cs = "[(4 :: nat, [Some (Num 50), Some (Num 60)], 55 :: rat, 10 :: rat),
              (0, [Some (Num 40), Some (Num 50)], 45, 10)]"
  let ?ts = "[(0 :: nat, [Some (Num 40), Some (Num 50)], 45 :: rat), (4, [Some (Num 50), Some (Num 60)], 55)]"
  let ?fs = "[(0 :: nat, [Some (Num 40), Some (Num 50)]), (4, [Some (Num 50), Some (Num 60)])]"
  let ?ps = "[(0 :: nat, [Some (Num 5), Some (Num 7)], 6 :: rat)]"
  let ?fp = "[(0 :: nat, [Some (Num 5), Some (Num 7)])]"
  let ?fi = "[(0 :: nat, window buf_idle2 8 0)]"
  have m1: "(4, [Some (Num 50), Some (Num 60)], 55, 10) \<in> set ?cs" by simp
  have m2: "(0, [Some (Num 40), Some (Num 50)], 45) \<in> set ?ts" by simp
  have m3: "(0, [Some (Num 5), Some (Num 7)], 6) \<in> set ?ps" by simp
  have m4: "(0, window buf_idle2 8 0) \<in> set ?fi" by simp
  have a: "length [Some (Num 50), Some (Num 60)] = 2 \<and> list_all (in_open 25 100) [Some (Num 50), Some (Num 60)]"
    using array_candidate_values [of exact_ops buf_rise 2 ?cs 4 "[Some (Num 50), Some (Num 60)]" 55 10 ?ts "[]" ?fs]
      temps_buf_rise m1 by blast
  have b: "length [Some (Num 40), Some (Num 50)] = 2 \<and> list_all (hit 25 95) [Some (Num 40), Some (Num 50)]"
    using array_candidate_values [of exact_ops buf_rise 2 ?cs 0 "[Some (Num 40), Some (Num 50)]" 45 10 ?ts "[]" ?fs]
      arrays_buf_rise m2 by blast
  have c: "length [Some (Num 5), Some (Num 7)] = 2 \<and> list_all (hit (1 / 2) 20) [Some (Num 5), Some (Num 7)]"
    using array_candidate_values [of exact_ops buf_power 2 ?cs 0 "[Some (Num 5), Some (Num 7)]" 6 10 "[]" ?ps ?fp]
      arrays_buf_power m3 by blast
  have d: "length (window buf_idle2 8 0) = 8
        \<and> int 8 - 2 \<le> int (length (filter (hit 400 6000) (window buf_idle2 8 0)))"
    using array_candidate_values [of exact_ops buf_idle2 8 ?cs 0 "window buf_idle2 8 0" 0 0 "[]" "[]" ?fi]
      arrays_buf_idle2 m4 by blast
  from temps_buf_rise a arrays_buf_rise b arrays_buf_power c arrays_buf_idle2 d show ?thesis
    by blast
qed

lemma base_within: "b \<in> set (array_bases data n) \<Longrightarrow> b + n * 4 \<le> length data"
  by (simp add: array_bases_iff)

text \<open>
  C10. Every window an array scan examines lies inside the snapshot: a scanned base
  \<open>b\<close> satisfies \<open>b + unitCount * 4 \<le> len(data)\<close> and none of the \<open>unitCount\<close> reads of
  its window is \<^verbatim>\<open>None\<close>. So no returned candidate, of any scan, holds an absent value, and
  the frequency loop, which would raise on formatting \<^verbatim>\<open>None\<close>, always completes.
\<close>

theorem windows_within_buffer:
  "(b \<in> set (array_bases data n) \<longrightarrow>
      b + n * 4 \<le> length data \<and> None \<notin> set (window data n b))
   \<and> (search_core_temps ops data n = Inr cs \<and> (b, vs, avg, spread) \<in> set cs \<longrightarrow>
      b + n * 4 \<le> length data \<and> length vs = n \<and> None \<notin> set vs)
   \<and> (search_core_arrays ops data n = Inr (ts, ps, fs) \<and> (b, vs, avg) \<in> set ts \<union> set ps \<longrightarrow>
      b + n * 4 \<le> length data \<and> length vs = n \<and> None \<notin> set vs)
   \<and> (search_core_arrays ops data n = Inr (ts, ps, fs) \<and> (b, vs) \<in> set fs \<longrightarrow>
      b + n * 4 \<le> length data \<and> length vs = n \<and> None \<notin> set vs)
   \<and> (\<exists>fs. core_freq_arrays data n = Inr fs)"
proof -
  have w: "b \<in> set (array_bases data n) \<Longrightarrow> vs = window data n b \<Longrightarrow>
      b + n * 4 \<le> length data \<and> length vs = n \<and> None \<notin> set vs" for b vs
    by (simp add: base_within base_window_no_None length_window)
  have 1: "b \<in> set (array_bases data n) \<longrightarrow>
      b + n * 4 \<le> length data \<and> None \<notin> set (window data n b)"
    using w [of b "window data n b"] by blast
  have 2: "search_core_temps ops data n = Inr cs \<and> (b, vs, avg, spread) \<in> set cs \<longrightarrow>
      b + n * 4 \<le> length data \<and> length vs = n \<and> None \<notin> set vs"
    using w [of b vs] temps_cand_base [of ops data n cs b vs avg spread]
      temps_cand_tuple [of ops data n cs b vs avg spread] by blast
  have 3: "search_core_arrays ops data n = Inr (ts, ps, fs) \<and> (b, vs, avg) \<in> set ts \<union> set ps \<longrightarrow>
      b + n * 4 \<le> length data \<and> length vs = n \<and> None \<notin> set vs"
    unfolding search_core_arrays_Inr core_temp_arrays_def core_power_arrays_def
    using w [of b vs]
      strict_cand_base [of 25 95 30 70 ops data n ts b vs avg]
      strict_cand_tuple [of 25 95 30 70 ops data n ts b vs avg]
      strict_cand_base [of "1 / 2" 20 2 15 ops data n ps b vs avg]
      strict_cand_tuple [of "1 / 2" 20 2 15 ops data n ps b vs avg]
    by blast
  have 4: "search_core_arrays ops data n = Inr (ts, ps, fs) \<and> (b, vs) \<in> set fs \<longrightarrow>
      b + n * 4 \<le> length data \<and> length vs = n \<and> None \<notin> set vs"
    unfolding search_core_arrays_Inr
    using w [of b vs] freq_cand_iff [of data n fs "(b, vs)"] by auto
  have 5: "\<exists>fs. core_freq_arrays data n = Inr fs"
    using core_freq_arrays_total by blast
  show ?thesis
    by (intro conjI) (rule 1, rule 2, rule 3, rule 4, rule 5)
qed

theorem windows_within_buffer_witness:
  "4 \<in> set (array_bases buf_rise 2) \<and> 4 + 2 * 4 \<le> length buf_rise
   \<and> None \<notin> set (window buf_rise 2 4)
   \<and> search_core_temps exact_ops buf_rise 2 =
     Inr [(4, [Some (Num 50), Some (Num 60)], 55, 10), (0, [Some (Num 40), Some (Num 50)], 45, 10)]
   \<and> None \<notin> set [Some (Num 50), Some (Num 60)]
   \<and> search_core_arrays exact_ops buf_rise 2 =
     Inr ([(0, [Some (Num 40), Some (Num 50)], 45), (4, [Some (Num 50), Some (Num 60)], 55)], [],
          [(0, [Some (Num 40), Some (Num 50)]), (4, [Some (Num 50), Some (Num 60)])])
   \<and> None \<notin> set [Some (Num 40), Some (Num 50)]"
proof -
  let ?cs = "[(4 :: nat, [Some (Num 50), Some (Num 60)], 55 :: rat, 10 :: rat),
              (0, [Some (Num 40), Some (Num 50)], 45, 10)]"
  let ?ts = "[(0 :: nat, [Some (Num 40), Some (Num 50)], 45 :: rat), (4, [Some (Num 50), Some (Num 60)], 55)]"
  let ?fs = "[(0 :: nat, [Some (Num 40), Some (Num 50)]), (4, [Some (Num 50), Some (Num 60)])]"
  have m0: "4 \<in> set (array_bases buf_rise 2)" by (simp add: bases_buf_rise)
  have m1: "(4, [Some (Num 50), Some (Num 60)], 55, 10) \<in> set ?cs" by simp
  have m2: "(0, [Some (Num 40), Some (Num 50)], 45) \<in> set ?ts \<union> set []" by simp
  have m3: "(0, [Some (Num 40), Some (Num 50)]) \<in> set ?fs" by simp
  note t = windows_within_buffer [of 4 buf_rise 2 exact_ops ?cs "[Some (Num 50), Some (Num 60)]" 55 10
      ?ts "[]" ?fs]
  note u = windows_within_buffer [of 0 buf_rise 2 exact_ops ?cs "[Some (Num 40), Some (Num 50)]" 45 10
      ?ts "[]" ?fs]
  have a: "4 + 2 * 4 \<le> length buf_rise \<and> None \<notin> set (window buf_rise 2 4)"
    using t m0 by blast
  have b: "None \<notin> set [Some (Num 50), Some (Num 60)]"
    using t temps_buf_rise m1 by blast
  have c: "None \<notin> set [Some (Num 40), Some (Num 50)]"
    using u arrays_buf_rise m2 m3 by blast
  from m0 a temps_buf_rise b arrays_buf_rise c show ?thesis by blast
qed

subsection \<open>The monitor\<close>

lemma tick_line_mem:
  "((off, v) \<in> set (tick_line data offsets)) =
     (off \<in> set offsets \<and> read_f32 data off = Some v \<and> truthy v)"
  by (induction offsets) (auto simp: tick_line_def List.map_filter_simps split: option.splits)

text \<open>
  C9. The claim: on every tick, an offset past the end of the snapshot is left out
  without an error, and every offset whose decode succeeds is printed. The filter of the
  line is \<^verbatim>\<open>if v\<close>, which drops \<^verbatim>\<open>None\<close> and also 0.0: on the snapshot 0.0, 50.0 with
  the offsets 0, 4, 8 the decode of offset 0 succeeds (0.0), offset 8 is past the end,
  and the line holds offset 4 alone.
\<close>

theorem tick_line_drops_zero:
  "read_f32 buf_zero_first 0 = Some (Num 0)
   \<and> read_f32 buf_zero_first 4 = Some (Num 50)
   \<and> read_f32 buf_zero_first 8 = None
   \<and> tick_line buf_zero_first [0, 4, 8] = [(4, Num 50)]
   \<and> watch_temps [buf_zero_first] [0, 4, 8] = [tick_line buf_zero_first [0, 4, 8]]"
  by (intro conjI)
    (rule read_buf_zero_first_0, rule read_buf_zero_first_4, rule read_buf_zero_first_8,
     rule tick_buf_zero_first, simp add: watch_temps_def)

end
